theory Spec2Isabelle
  imports Main "HOL-Library.Sublist"
begin

section \<open>Strings\<close>

text \<open>
  A Python \<open>str\<close> is modelled as a \<open>string\<close>; a character stands for the code point
  with the same number. The no-break space \<open>'\xa0'\<close> is the character 160.
\<close>

definition nbsp :: char where
  "nbsp = CHR 0xA0"

text \<open>
  \<open>str.isspace\<close> on one character: the code points 9 to 13, 28 to 32, 133 and 160
  are the white space of \<open>str.strip()\<close>, \<open>str.split()\<close> and of the pattern \<open>\S+\<close>.
\<close>

definition isspace :: "char \<Rightarrow> bool" where
  "isspace c =
     (let n = (of_char c :: nat)
      in (9 \<le> n \<and> n \<le> 13) \<or> (28 \<le> n \<and> n \<le> 32) \<or> n = 133 \<or> n = 160)"

text \<open>\<open>s.strip()\<close>: leading and trailing white space removed.\<close>

definition strip :: "string \<Rightarrow> string" where
  "strip s = rev (dropWhile isspace (rev (dropWhile isspace s)))"

text \<open>\<open>s.replace('\xa0', '')\<close>: every no-break space removed.\<close>

definition replace_nbsp :: "string \<Rightarrow> string" where
  "replace_nbsp s = filter (\<lambda>c. c \<noteq> nbsp) s"

text \<open>
  \<open>s.split()\<close>: the maximal runs of characters that are not white space, in order.
  The first argument is the run read so far.
\<close>

fun split_from :: "string \<Rightarrow> string \<Rightarrow> string list" where
  "split_from w [] = (if w = [] then [] else [w])"
| "split_from w (c # cs) =
     (if isspace c then (if w = [] then split_from [] cs else w # split_from [] cs)
      else split_from (w @ [c]) cs)"

definition split :: "string \<Rightarrow> string list" where
  "split s = split_from [] s"

text \<open>\<open>' '.join(xs)\<close>.\<close>

fun join_space :: "string list \<Rightarrow> string" where
  "join_space [] = []"
| "join_space [x] = x"
| "join_space (x # y # ys) = x @ '' '' @ join_space (y # ys)"

section \<open>The parsed document\<close>

text \<open>
  The tree that \<open>BeautifulSoup(response.text, 'html.parser')\<close> builds: a text node
  holds a string, an element holds its (lower-case) name, its attributes as written in
  the page (an association list read as the attribute dictionary) and its children in
  document order. The \<open>BeautifulSoup\<close> object itself is an element (named
  \<open>[document]\<close>) whose children are the top-level nodes of the page.
\<close>

datatype node = Text string | Tag string "(string \<times> string) list" "node list"

text \<open>
  The value of an attribute as the tree builder stores it: a string, or, for the
  attributes the builder treats as white-space separated lists, the list of the tokens.
\<close>

datatype attr = Str string | Multi "string list"

text \<open>
  The builder's table of list-valued attributes: \<open>class\<close>, \<open>accesskey\<close> and
  \<open>dropzone\<close> on every element, \<open>headers\<close> on \<open>td\<close> and \<open>th\<close>, and a few more
  on other elements. Every other attribute, \<open>href\<close> among them, stays a string.
\<close>

definition cdata_list_attribute :: "string \<Rightarrow> string \<Rightarrow> bool" where
  "cdata_list_attribute tag key =
     (key = ''class'' \<or> key = ''accesskey'' \<or> key = ''dropzone''
      \<or> ((tag = ''a'' \<or> tag = ''link'') \<and> (key = ''rel'' \<or> key = ''rev''))
      \<or> ((tag = ''td'' \<or> tag = ''th'') \<and> key = ''headers'')
      \<or> (tag = ''form'' \<and> key = ''accept-charset'')
      \<or> (tag = ''object'' \<and> key = ''archive'')
      \<or> (tag = ''area'' \<and> key = ''rel'')
      \<or> (tag = ''icon'' \<and> key = ''sizes'')
      \<or> (tag = ''iframe'' \<and> key = ''sandbox'')
      \<or> (tag = ''output'' \<and> key = ''for''))"

text \<open>\<open>tag.get(key)\<close>: \<open>None\<close> when the element has no such attribute.\<close>

fun get :: "node \<Rightarrow> string \<Rightarrow> attr option" where
  "get (Text s) key = None"
| "get (Tag tag attrs children) key =
     (case map_of attrs key of
        None \<Rightarrow> None
      | Some v \<Rightarrow> Some (if cdata_list_attribute tag key then Multi (split v) else Str v))"

text \<open>\<open>tag.text\<close>: the strings below the element, concatenated in document order.\<close>

fun text_of :: "node \<Rightarrow> string" where
  "text_of (Text s) = s"
| "text_of (Tag tag attrs children) = concat (map text_of children)"

text \<open>Everything below a node, in document order (the node itself left out).\<close>

fun descendants :: "node \<Rightarrow> node list" where
  "descendants (Text s) = []"
| "descendants (Tag tag attrs children) = concat (map (\<lambda>c. c # descendants c) children)"

text \<open>
  How a search for the string \<open>v\<close> matches an attribute: an absent attribute matches
  only the empty string, a string attribute must equal \<open>v\<close>, and a list-valued
  attribute matches when one of its tokens equals \<open>v\<close> or the tokens joined by
  spaces do.
\<close>

fun attr_matches :: "attr option \<Rightarrow> string \<Rightarrow> bool" where
  "attr_matches None v = (v = [])"
| "attr_matches (Some (Str s)) v = (s = v)"
| "attr_matches (Some (Multi ts)) v = (list_ex (\<lambda>t. t = v) ts \<or> join_space ts = v)"

text \<open>
  An element matches \<open>find_all(name, key1=v1, ...)\<close> when it has that name and each
  listed attribute matches (\<open>class_\<close> is the attribute \<open>class\<close>).
\<close>

fun matches :: "string \<Rightarrow> (string \<times> string) list \<Rightarrow> node \<Rightarrow> bool" where
  "matches name kwargs (Text s) = False"
| "matches name kwargs (Tag tag attrs children) =
     (tag = name \<and> list_all (\<lambda>kv. attr_matches (get (Tag tag attrs children) (fst kv)) (snd kv)) kwargs)"

definition find_all :: "node \<Rightarrow> string \<Rightarrow> (string \<times> string) list \<Rightarrow> node list" where
  "find_all n name kwargs = filter (matches name kwargs) (descendants n)"

text \<open>\<open>find\<close>: the first element of \<open>find_all\<close>, \<open>None\<close> when there is none.\<close>

definition find :: "node \<Rightarrow> string \<Rightarrow> (string \<times> string) list \<Rightarrow> node option" where
  "find n name kwargs = (case find_all n name kwargs of [] \<Rightarrow> None | r # rs \<Rightarrow> Some r)"

section \<open>Argument validation\<close>

text \<open>What the script prints, one constructor per \<open>print\<close> call of the source.\<close>

datatype message =
    MsgArgCount
  | MsgBadUrl
  | MsgBadCsv
  | MsgLoadingMain
  | MsgNoObce
  | MsgLoadingParties
  | MsgProgress nat nat string
  | MsgDone string

text \<open>\<open>validate_arguments(args)\<close>: the result and what was printed.\<close>

definition validate_arguments :: "string list \<Rightarrow> bool \<times> message list" where
  "validate_arguments args =
     (if length args \<noteq> 3 then (False, [MsgArgCount])
      else if \<not> prefix ''https://www.volby.cz/pls/ps2017nss/ps3'' (args ! 1)
        then (False, [MsgBadUrl])
      else if \<not> suffix ''.csv'' (args ! 2) then (False, [MsgBadCsv])
      else (True, []))"

section \<open>The extractors\<close>

text \<open>
  \<open>urllib.parse.urljoin\<close> is a function of the standard library: the extractor
  takes it as a parameter.
\<close>

type_synonym urljoin = "string \<Rightarrow> string \<Rightarrow> string"

type_synonym obec_info = "string \<times> string \<times> string"


text \<open>
  One pass of the loop of \<open>get_obec_links\<close>. An element is always true as a
  condition, so \<open>cislo_td and name_td\<close> holds when both were found; \<open>a.get('href')\<close>
  holds for a string that is not empty. The attribute \<open>href\<close> is never list-valued
  (lemma \<open>get_href\<close> below), so the last case is never taken.
\<close>

definition obec_step :: "urljoin \<Rightarrow> string \<Rightarrow> obec_info list \<Rightarrow> node \<Rightarrow> obec_info list" where
  "obec_step join base_url results row =
     (case find row ''td'' [(''class'', ''cislo'')] of
        None \<Rightarrow> results
      | Some cislo_td \<Rightarrow>
          (case find row ''td'' [(''class'', ''overflow_name'')] of
             None \<Rightarrow> results
           | Some name_td \<Rightarrow>
               (case find cislo_td ''a'' [] of
                  None \<Rightarrow> results
                | Some a \<Rightarrow>
                    (case get a ''href'' of
                       None \<Rightarrow> results
                     | Some (Str href) \<Rightarrow>
                         if href = [] then results
                         else results @ [(join base_url href, strip (text_of a), strip (text_of name_td))]
                     | Some (Multi ts) \<Rightarrow> results))))"

definition get_obec_links :: "urljoin \<Rightarrow> node \<Rightarrow> string \<Rightarrow> obec_info list" where
  "get_obec_links join soup base_url = foldl (obec_step join base_url) [] (find_all soup ''tr'' [])"

text \<open>One pass of the inner loop of \<open>get_party_names\<close>.\<close>

definition party_step :: "string list \<Rightarrow> node \<Rightarrow> string list" where
  "party_step names tr =
     (case find tr ''td'' [(''class'', ''overflow_name'')] of
        None \<Rightarrow> names
      | Some name_td \<Rightarrow> names @ [strip (text_of name_td)])"

definition get_party_names :: "node \<Rightarrow> string list" where
  "get_party_names soup =
     foldl (\<lambda>names table. foldl party_step names (find_all table ''tr'' [])) []
       (find_all soup ''table'' [])"

text \<open>
  \<open>td.get('headers', '')\<close>, split when it is a string: the tokens of the \<open>headers\<close>
  attribute of a cell.
\<close>

definition headers_of :: "node \<Rightarrow> string list" where
  "headers_of td =
     (case get td ''headers'' of
        None \<Rightarrow> split []
      | Some (Str s) \<Rightarrow> split s
      | Some (Multi ts) \<Rightarrow> ts)"

text \<open>
  The loop over the numeric cells of a row, left at the first cell one of whose
  header tokens ends with \<open>sa2\<close>.
\<close>

fun find_vote_td :: "node list \<Rightarrow> node option" where
  "find_vote_td [] = None"
| "find_vote_td (td # tds) =
     (if list_ex (suffix ''sa2'') (headers_of td) then Some td else find_vote_td tds)"

text \<open>One pass of the inner loop of \<open>parse_obec_data\<close>.\<close>

definition vote_step :: "string list \<Rightarrow> node \<Rightarrow> string list" where
  "vote_step hlasy tr =
     (case find tr ''td'' [(''class'', ''overflow_name'')] of
        None \<Rightarrow> hlasy
      | Some name_td \<Rightarrow>
          (case find_vote_td (find_all tr ''td'' [(''class'', ''cislo'')]) of
             Some vote_td \<Rightarrow> hlasy @ [replace_nbsp (strip (text_of vote_td))]
           | None \<Rightarrow> hlasy @ [[]]))"

definition hlasy_of :: "node \<Rightarrow> string list" where
  "hlasy_of soup =
     foldl (\<lambda>hlasy table. foldl vote_step hlasy (find_all table ''tr'' [])) []
       (find_all soup ''table'' [])"

text \<open>
  What can end a run: a failed request, a response with an error status, and the
  \<open>AttributeError\<close> of \<open>None.text\<close>.
\<close>

datatype error = RequestException | HTTPError nat | AttributeError

text \<open>\<open>soup.find('td', headers=h).text.strip().replace('\xa0', '')\<close>.\<close>

definition scalar :: "node \<Rightarrow> string \<Rightarrow> error + string" where
  "scalar soup h =
     (case find soup ''td'' [(''headers'', h)] of
        None \<Rightarrow> Inl AttributeError
      | Some td \<Rightarrow> Inr (replace_nbsp (strip (text_of td))))"

text \<open>\<open>parse_obec_data\<close> after the page is fetched.\<close>

definition parse_soup :: "node \<Rightarrow> error + string list" where
  "parse_soup soup =
     (case scalar soup ''sa2'' of
        Inl e \<Rightarrow> Inl e
      | Inr volici \<Rightarrow>
          (case scalar soup ''sa3'' of
             Inl e \<Rightarrow> Inl e
           | Inr obalky \<Rightarrow>
               (case scalar soup ''sa6'' of
                  Inl e \<Rightarrow> Inl e
                | Inr platne \<Rightarrow> Inr ([volici, obalky, platne] @ hlasy_of soup))))"

section \<open>The network, the output and the run\<close>

text \<open>
  What \<open>requests.get(url)\<close> yields: no response at all (the call raises), or a
  response with its status code and the document its body parses to.
\<close>

datatype response = NoResponse | Response nat node

text \<open>
  The network answers a request from its current state and moves to a new one: the
  same address may be answered differently the second time.
\<close>

type_synonym 'w network = "'w \<Rightarrow> string \<Rightarrow> response \<times> 'w"

text \<open>
  The state of a run: the network, every request made so far with its response,
  everything printed, and every file written (name and content), each in order.
\<close>

record 'w state =
  world :: 'w
  requests :: "(string \<times> response) list"
  stdout :: "message list"
  files :: "(string \<times> string) list"

definition print :: "message \<Rightarrow> 'w state \<Rightarrow> 'w state" where
  "print m s = s\<lparr>stdout := stdout s @ [m]\<rparr>"

text \<open>
  What \<open>get_soup\<close> makes of a response: \<open>requests.get\<close> raises when there is no
  response, \<open>raise_for_status()\<close> raises for the status codes 400 to 599, and
  otherwise the parsed document is returned.
\<close>

definition fetched :: "response \<Rightarrow> error + node" where
  "fetched response =
     (case response of
        NoResponse \<Rightarrow> Inl RequestException
      | Response status_code soup \<Rightarrow>
          if 400 \<le> status_code \<and> status_code < 600 then Inl (HTTPError status_code)
          else Inr soup)"

definition get_soup :: "'w network \<Rightarrow> string \<Rightarrow> 'w state \<Rightarrow> (error + node) \<times> 'w state" where
  "get_soup net url s =
     (case net (world s) url of
        (response, w) \<Rightarrow>
          (fetched response, s\<lparr>world := w, requests := requests s @ [(url, response)]\<rparr>))"

definition parse_obec_data ::
  "'w network \<Rightarrow> string \<Rightarrow> 'w state \<Rightarrow> (error + string list) \<times> 'w state" where
  "parse_obec_data net url s =
     (case get_soup net url s of
        (Inl e, s') \<Rightarrow> (Inl e, s')
      | (Inr soup, s') \<Rightarrow> (parse_soup soup, s'))"

text \<open>
  \<open>csv.writer(f)\<close> with the default dialect: fields separated by a comma, a record
  ended by carriage return and line feed, a field quoted when it holds a comma, a
  quote, a carriage return or a line feed, a quote inside a quoted field doubled, and
  the record of one empty field written as two quotes.
\<close>

definition dquote :: char where
  "dquote = CHR 0x22"

definition special :: "char \<Rightarrow> bool" where
  "special c = (c = CHR '','' \<or> c = dquote \<or> c = CHR 0x0D \<or> c = CHR 0x0A)"

definition write_field :: "string \<Rightarrow> string" where
  "write_field f =
     (if list_ex special f
      then [dquote] @ concat (map (\<lambda>c. if c = dquote then [dquote, dquote] else [c]) f) @ [dquote]
      else f)"

fun join_fields :: "string list \<Rightarrow> string" where
  "join_fields [] = []"
| "join_fields [f] = write_field f"
| "join_fields (f # g # fs) = write_field f @ '','' @ join_fields (g # fs)"

definition writerow :: "string list \<Rightarrow> string" where
  "writerow row = (if row = [[]] then [dquote, dquote] else join_fields row) @ [CHR 0x0D, CHR 0x0A]"

definition writerows :: "string list list \<Rightarrow> string" where
  "writerows rows = concat (map writerow rows)"

text \<open>
  \<open>save_to_csv\<close>: the file is opened for writing, so its content is what is written
  now. Opening the file and writing to it are taken to succeed.
\<close>

definition save_to_csv :: "string \<Rightarrow> string list \<Rightarrow> string list list \<Rightarrow> 'w state \<Rightarrow> 'w state" where
  "save_to_csv filename header data s =
     s\<lparr>files := files s @ [(filename, writerow header @ writerows data)]\<rparr>"

definition csv_header :: "string list \<Rightarrow> string list" where
  "csv_header party_names =
     [''code'', ''location'', ''registered'', ''envelopes'', ''valid''] @ party_names"

text \<open>
  The loop of \<open>main\<close> over the municipalities: \<open>n\<close> is their number, \<open>i\<close> the
  counter of \<open>enumerate\<close>. An error of \<open>parse_obec_data\<close> ends the loop.
\<close>

fun obec_loop ::
  "'w network \<Rightarrow> nat \<Rightarrow> nat \<Rightarrow> obec_info list \<Rightarrow> string list list \<Rightarrow> 'w state
     \<Rightarrow> (error + string list list) \<times> 'w state" where
  "obec_loop net n i [] data s = (Inr data, s)"
| "obec_loop net n i ((link, code, name) # rest) data s =
     (case parse_obec_data net link (print (MsgProgress i n name) s) of
        (Inl e, s') \<Rightarrow> (Inl e, s')
      | (Inr row, s') \<Rightarrow> obec_loop net n (i + 1) rest (data @ [[code, name] @ row]) s')"

text \<open>
  \<open>main\<close>, run on the argument list \<open>argv\<close> from the network state \<open>w\<close>: it
  returns (\<open>Inr ()\<close>) or ends with an error nobody catches (\<open>Inl\<close>), and leaves the
  final state.
\<close>

definition main :: "'w network \<Rightarrow> urljoin \<Rightarrow> string list \<Rightarrow> 'w \<Rightarrow> (error + unit) \<times> 'w state" where
  "main net join argv w =
     (let s0 = \<lparr>world = w, requests = [], stdout = [], files = []\<rparr>;
          s1 = s0\<lparr>stdout := stdout s0 @ snd (validate_arguments argv)\<rparr>
      in if \<not> fst (validate_arguments argv) then (Inr (), s1)
         else
           (let url = argv ! 1;
                output_file = argv ! 2
            in case get_soup net url (print MsgLoadingMain s1) of
                 (Inl e, s2) \<Rightarrow> (Inl e, s2)
               | (Inr main_soup, s2) \<Rightarrow>
                   (let obec_infos = get_obec_links join main_soup url
                    in if obec_infos = [] then (Inr (), print MsgNoObce s2)
                       else
                         (case get_soup net (fst (hd obec_infos)) (print MsgLoadingParties s2) of
                            (Inl e, s3) \<Rightarrow> (Inl e, s3)
                          | (Inr first_obec_soup, s3) \<Rightarrow>
                              (let party_names = get_party_names first_obec_soup;
                                   header = csv_header party_names
                               in case obec_loop net (length obec_infos) 1 obec_infos [] s3 of
                                    (Inl e, s4) \<Rightarrow> (Inl e, s4)
                                  | (Inr data, s4) \<Rightarrow>
                                      (Inr (),
                                       print (MsgDone output_file)
                                         (save_to_csv output_file header data s4)))))))"

section \<open>Reading delimited text\<close>

text \<open>
  The reader of standard delimited text, as \<open>csv.reader\<close> with the default dialect
  reads a file opened with \<open>newline=''\<close>: a state machine over the characters that
  holds the field being read, the fields of the row being read and the rows read
  so far. Outside quotes a comma ends a field and a carriage return, a line feed or
  a carriage return followed by a line feed ends a row; inside quotes every
  character belongs to the field, a doubled quote standing for one quote. A line
  without characters is the empty row.
\<close>

datatype reader_state =
  StartRecord | StartField | InField | InQuotedField | QuoteInQuotedField | EatCRNL

type_synonym reader = "reader_state \<times> string \<times> string list \<times> string list list"

definition start_field :: "string list \<Rightarrow> string list list \<Rightarrow> char \<Rightarrow> reader" where
  "start_field row rows c =
     (if c = CHR 0x0A then (StartRecord, [], [], rows @ [row @ [[]]])
      else if c = CHR 0x0D then (EatCRNL, [], [], rows @ [row @ [[]]])
      else if c = dquote then (InQuotedField, [], row, rows)
      else if c = CHR '','' then (StartField, [], row @ [[]], rows)
      else (InField, [c], row, rows))"

definition start_record :: "string list list \<Rightarrow> char \<Rightarrow> reader" where
  "start_record rows c =
     (if c = CHR 0x0A then (StartRecord, [], [], rows @ [[]])
      else if c = CHR 0x0D then (EatCRNL, [], [], rows @ [[]])
      else start_field [] rows c)"

fun process_char :: "reader \<Rightarrow> char \<Rightarrow> reader" where
  "process_char (StartRecord, field, row, rows) c = start_record rows c"
| "process_char (StartField, field, row, rows) c = start_field row rows c"
| "process_char (InField, field, row, rows) c =
     (if c = CHR 0x0A then (StartRecord, [], [], rows @ [row @ [field]])
      else if c = CHR 0x0D then (EatCRNL, [], [], rows @ [row @ [field]])
      else if c = CHR '','' then (StartField, [], row @ [field], rows)
      else (InField, field @ [c], row, rows))"
| "process_char (InQuotedField, field, row, rows) c =
     (if c = dquote then (QuoteInQuotedField, field, row, rows)
      else (InQuotedField, field @ [c], row, rows))"
| "process_char (QuoteInQuotedField, field, row, rows) c =
     (if c = dquote then (InQuotedField, field @ [c], row, rows)
      else if c = CHR '','' then (StartField, [], row @ [field], rows)
      else if c = CHR 0x0A then (StartRecord, [], [], rows @ [row @ [field]])
      else if c = CHR 0x0D then (EatCRNL, [], [], rows @ [row @ [field]])
      else (InField, field @ [c], row, rows))"
| "process_char (EatCRNL, field, row, rows) c =
     (if c = CHR 0x0A then (StartRecord, [], [], rows) else start_record rows c)"

text \<open>At the end of the text a row that has been started is complete.\<close>

fun finish :: "reader \<Rightarrow> string list list" where
  "finish (StartRecord, field, row, rows) = rows"
| "finish (EatCRNL, field, row, rows) = rows"
| "finish (st, field, row, rows) = rows @ [row @ [field]]"

definition reader :: "string \<Rightarrow> string list list" where
  "reader text = finish (foldl process_char (StartRecord, [], [], []) text)"

section \<open>The words of the specification\<close>


text \<open>
  The party rows of a page: for every table in document order, its rows that contain
  an \<open>overflow_name\<close> cell, in document order.
\<close>

definition party_rows :: "node \<Rightarrow> node list" where
  "party_rows soup =
     concat (map (\<lambda>table. filter (\<lambda>tr. find tr ''td'' [(''class'', ''overflow_name'')] \<noteq> None)
                               (find_all table ''tr'' []))
                 (find_all soup ''table'' []))"


text \<open>One of the three mandatory scalar cells is absent from a page.\<close>

definition scalar_missing :: "node \<Rightarrow> bool" where
  "scalar_missing soup =
     (find soup ''td'' [(''headers'', ''sa2'')] = None
      \<or> find soup ''td'' [(''headers'', ''sa3'')] = None
      \<or> find soup ''td'' [(''headers'', ''sa6'')] = None)"




text \<open>A status code of success: 200 to 299.\<close>

definition success_status :: "nat \<Rightarrow> bool" where
  "success_status code = (200 \<le> code \<and> code < 300)"

text \<open>
  The log of a run as \<open>get_soup\<close> reads it: each address requested with the error
  raised for its response or the document returned.
\<close>

definition pages :: "(string \<times> response) list \<Rightarrow> (string \<times> (error + node)) list" where
  "pages log = map (\<lambda>entry. (fst entry, fetched (snd entry))) log"

section \<open>Example pages\<close>

text \<open>
  Pages in the layout of the portal: numeric cells of class \<open>cislo\<close>, name cells of
  class \<open>overflow_name\<close>, and \<open>headers\<close> attributes that tell the columns apart.
\<close>

definition cell :: "string \<Rightarrow> string \<Rightarrow> node list \<Rightarrow> node" where
  "cell cls hdr children = Tag ''td'' [(''class'', cls), (''headers'', hdr)] children"

definition party_row :: "string \<Rightarrow> string \<Rightarrow> string \<Rightarrow> string \<Rightarrow> node" where
  "party_row t num name votes =
     Tag ''tr'' []
       [cell ''cislo'' (t @ ''sa1 '' @ t @ ''sb1'') [Text num],
        cell ''overflow_name'' (t @ ''sa1 '' @ t @ ''sb2'') [Text name],
        cell ''cislo'' (t @ ''sa2 '' @ t @ ''sb3'') [Text votes]]"

definition totals_table :: "string \<Rightarrow> string \<Rightarrow> string \<Rightarrow> node" where
  "totals_table registered envelopes valid =
     Tag ''table'' []
       [Tag ''tr'' []
          [cell ''cislo'' ''sa2'' [Text registered], cell ''cislo'' ''sa3'' [Text envelopes],
           cell ''cislo'' ''sa6'' [Text valid]]]"

definition heading_row :: node where
  "heading_row = Tag ''tr'' [] [Tag ''th'' [] [Text ''Strana'']]"

text \<open>A municipality whose six parties stand in two tables of three rows.\<close>

definition page_A :: node where
  "page_A =
     Tag ''[document]'' []
       [totals_table (''1'' @ [nbsp] @ ''000'') ''800'' ''790'',
        Tag ''table'' []
          [heading_row,
           party_row ''t1'' ''1'' ''Strana X'' ''400'',
           party_row ''t1'' ''2'' '' Strana Y '' ''390'',
           party_row ''t1'' ''3'' ''Strana Z'' ''0''],
        Tag ''table'' []
          [heading_row,
           party_row ''t2'' ''4'' ''Strana U'' ''0'',
           party_row ''t2'' ''5'' ''Strana X'' ''0'',
           party_row ''t2'' ''6'' ''Strana W'' ''0'']]"

text \<open>A municipality whose page lists one party only.\<close>

definition page_B :: node where
  "page_B =
     Tag ''[document]'' []
       [totals_table ''2000'' ''1500'' ''1480'',
        Tag ''table'' [] [heading_row, party_row ''t1'' ''1'' ''Strana X'' ''700'']]"


text \<open>A page without the cell of the valid votes (\<open>sa6\<close>).\<close>

definition page_D :: node where
  "page_D =
     Tag ''[document]'' []
       [Tag ''table'' []
          [Tag ''tr'' []
             [cell ''cislo'' ''sa2'' [Text ''10''], cell ''cislo'' ''sa3'' [Text ''8'']]],
        Tag ''table'' [] [party_row ''t1'' ''1'' ''Strana X'' ''4'']]"

definition unit_row :: "string \<Rightarrow> string \<Rightarrow> string \<Rightarrow> node" where
  "unit_row href code name =
     Tag ''tr'' []
       [cell ''cislo'' ''t1sa1 t1sb1'' [Tag ''a'' [(''href'', href)] [Text code]],
        cell ''overflow_name'' ''t1sa1 t1sb2'' [Text name]]"

text \<open>
  A territorial unit with two municipalities; the row between them has both cells
  but no link.
\<close>

definition unit_page :: node where
  "unit_page =
     Tag ''[document]'' []
       [Tag ''table'' []
          [heading_row,
           unit_row ''ps311?obec=500054'' ''500054'' ''Querfurt'',
           Tag ''tr'' []
             [cell ''cislo'' ''t1sa1 t1sb1'' [Text ''-''],
              cell ''overflow_name'' ''t1sa1 t1sb2'' [Text ''-'']],
           unit_row ''ps311?obec=500062'' ''500062'' ''Beispiel'']]"

text \<open>A territorial unit without municipalities.\<close>

definition empty_unit_page :: node where
  "empty_unit_page = Tag ''[document]'' [] [Tag ''table'' [] [heading_row]]"

text \<open>
  A stand-in for \<open>urljoin\<close> that is right for the relative links of the examples:
  the base up to its last slash, followed by the link.
\<close>

definition example_join :: urljoin where
  "example_join base url = rev (dropWhile (\<lambda>c. c \<noteq> CHR ''/'') (rev base)) @ url"

definition example_url :: string where
  "example_url = ''https://www.volby.cz/pls/ps2017nss/ps32?xnumnuts=2101''"

definition example_argv :: "string list" where
  "example_argv = [''main.py'', example_url, ''out.csv'']"

definition url_A :: string where
  "url_A = ''https://www.volby.cz/pls/ps2017nss/ps311?obec=500054''"

definition url_B :: string where
  "url_B = ''https://www.volby.cz/pls/ps2017nss/ps311?obec=500062''"

text \<open>
  A network without state of its own that answers from a table of addresses, and
  not at all for an address outside the table.
\<close>

definition serve :: "(string \<times> response) list \<Rightarrow> unit network" where
  "serve table w url = (case map_of table url of None \<Rightarrow> NoResponse | Some response \<Rightarrow> response, w)"

text \<open>The unit with \<open>page_A\<close> for the first municipality and \<open>page_B\<close> for the second.\<close>

definition example_net :: "unit network" where
  "example_net =
     serve [(example_url, Response 200 unit_page), (url_A, Response 200 page_A),
            (url_B, Response 200 page_B)]"

text \<open>The same unit when the page of the second municipality is not found.\<close>

definition net_not_found :: "unit network" where
  "net_not_found =
     serve [(example_url, Response 200 unit_page), (url_A, Response 200 page_A),
            (url_B, Response 404 (Tag ''[document]'' [] [Text ''Not Found'']))]"

text \<open>The same unit when the page of the second municipality lacks a scalar cell.\<close>

definition net_malformed :: "unit network" where
  "net_malformed =
     serve [(example_url, Response 200 unit_page), (url_A, Response 200 page_A),
            (url_B, Response 200 page_D)]"

text \<open>
  The same unit when the page of the second municipality is answered with the status
  300 and \<open>page_B\<close> as its body.
\<close>

definition net_multiple_choices :: "unit network" where
  "net_multiple_choices =
     serve [(example_url, Response 200 unit_page), (url_A, Response 200 page_A),
            (url_B, Response 300 page_B)]"

text \<open>A unit without municipalities.\<close>

definition net_empty :: "unit network" where
  "net_empty = serve [(example_url, Response 200 empty_unit_page)]"

text \<open>The runs of the examples.\<close>

definition example_result :: "(error + unit) \<times> unit state" where
  "example_result = main example_net example_join example_argv ()"

definition not_found_result :: "(error + unit) \<times> unit state" where
  "not_found_result = main net_not_found example_join example_argv ()"

definition malformed_result :: "(error + unit) \<times> unit state" where
  "malformed_result = main net_malformed example_join example_argv ()"

definition multiple_choices_result :: "(error + unit) \<times> unit state" where
  "multiple_choices_result = main net_multiple_choices example_join example_argv ()"

section \<open>Properties\<close>

subsection \<open>Argument validation\<close>

lemma length_three: "(length xs = 3) = (\<exists>a b c. xs = [a, b, c])"
  by (cases xs; simp add: length_Suc_conv eval_nat_numeral; blast)

text \<open>
  C5. \<open>validate_arguments\<close> returns \<open>True\<close> if and only if the argument list is the
  program name followed by exactly two arguments, the first starting with
  \<open>https://www.volby.cz/pls/ps2017nss/ps3\<close> and the second ending with \<open>.csv\<close>;
  it prints nothing when it accepts and exactly one diagnostic when it returns \<open>False\<close>.
\<close>

theorem validate_arguments_iff:
  "fst (validate_arguments args) =
     (\<exists>prog url file. args = [prog, url, file]
        \<and> prefix ''https://www.volby.cz/pls/ps2017nss/ps3'' url \<and> suffix ''.csv'' file)
   \<and> length (snd (validate_arguments args)) = (if fst (validate_arguments args) then 0 else 1)"
proof (cases "length args = 3")
  case False
  then have "\<not> (\<exists>prog url file. args = [prog, url, file])" by auto
  with False show ?thesis by (simp add: validate_arguments_def)
next
  case True
  then obtain a b c where "args = [a, b, c]" unfolding length_three by blast
  then show ?thesis by (simp add: validate_arguments_def)
qed

theorem validate_arguments_iff_witness:
  "fst (validate_arguments example_argv)
   \<and> \<not> fst (validate_arguments [''main.py'', example_url, ''out.txt''])
   \<and> snd (validate_arguments [''main.py'', example_url, ''out.txt'']) = [MsgBadCsv]
   \<and> \<not> fst (validate_arguments [''main.py'', example_url])"
proof -
  have "prefix ''https://www.volby.cz/pls/ps2017nss/ps3'' example_url"
    by (simp add: example_url_def)
  moreover have "suffix ''.csv'' ''out.csv''" and "\<not> suffix ''.csv'' ''out.txt''"
    by (simp_all add: suffix_to_prefix)
  moreover have "snd (validate_arguments [''main.py'', example_url, ''out.txt'']) = [MsgBadCsv]"
    by (simp add: validate_arguments_def example_url_def suffix_to_prefix)
  ultimately show ?thesis
    using validate_arguments_iff [of example_argv]
      validate_arguments_iff [of "[''main.py'', example_url, ''out.txt'']"]
      validate_arguments_iff [of "[''main.py'', example_url]"]
    by (simp add: example_argv_def)
qed

subsection \<open>Loops that append\<close>

lemma foldl_append_step:
  assumes "\<And>acc x. step acc x = acc @ f x"
  shows "foldl step acc xs = acc @ concat (map f xs)"
  using assms by (induction xs arbitrary: acc) simp_all

lemma foldl_foldl_append_step:
  assumes "\<And>acc x. step acc x = acc @ f x"
  shows "foldl (\<lambda>acc t. foldl step acc (g t)) acc ts
           = acc @ concat (map (\<lambda>t. concat (map f (g t))) ts)"
  by (induction ts arbitrary: acc) (simp_all add: foldl_append_step [of step f, OF assms])

lemma concat_map_filter_singleton:
  assumes "\<And>x. x \<in> set xs \<Longrightarrow> f x = (if P x then [g x] else [])"
  shows "concat (map f xs) = map g (filter P xs)"
  using assms by (induction xs) simp_all

lemma list_all2_right:
  assumes "list_all2 R xs ys" and "\<And>x y. R x y \<Longrightarrow> P y"
  shows "list_all P ys"
  using assms by (induction rule: list_all2_induct) auto

lemma party_step_append: "party_step names tr = names @ party_step [] tr"
  by (simp add: party_step_def split: option.splits)

lemma vote_step_append: "vote_step hlasy tr = hlasy @ vote_step [] tr"
  by (simp add: vote_step_def split: option.splits)


lemma get_party_names_concat:
  "get_party_names soup =
     concat (map (\<lambda>table. concat (map (party_step []) (find_all table ''tr'' [])))
                 (find_all soup ''table'' []))"
  unfolding get_party_names_def
  using foldl_foldl_append_step [of party_step "party_step []" "\<lambda>t. find_all t ''tr'' []" "[]",
      OF party_step_append]
  by simp

lemma hlasy_of_concat:
  "hlasy_of soup =
     concat (map (\<lambda>table. concat (map (vote_step []) (find_all table ''tr'' [])))
                 (find_all soup ''table'' []))"
  unfolding hlasy_of_def
  using foldl_foldl_append_step [of vote_step "vote_step []" "\<lambda>t. find_all t ''tr'' []" "[]",
      OF vote_step_append]
  by simp


subsection \<open>The party header\<close>

lemma party_names_map_filter:
  "concat (map (party_step []) rows) =
     List.map_filter (\<lambda>tr. map_option (\<lambda>name_td. strip (text_of name_td))
        (find tr ''td'' [(''class'', ''overflow_name'')])) rows"
  by (induction rows) (simp_all add: map_filter_simps party_step_def split: option.splits)

text \<open>
  C3. \<open>get_party_names\<close> returns, for every table of the page in document order and
  for every row of that table in document order, the trimmed text of the
  \<open>overflow_name\<close> cell that the scan finds in the row (none for a row without one):
  the names of the tables are concatenated, and nothing is removed, so a name that
  occurs twice stays twice.
\<close>

theorem get_party_names_document_order:
  "get_party_names soup =
     concat (map (\<lambda>table. List.map_filter (\<lambda>tr. map_option (\<lambda>name_td. strip (text_of name_td))
                    (find tr ''td'' [(''class'', ''overflow_name'')])) (find_all table ''tr'' []))
                 (find_all soup ''table'' []))"
  by (simp only: get_party_names_concat party_names_map_filter)

text \<open>
  On \<open>page_A\<close>, two tables of three party rows each, the result has six names in
  table-then-row order, the repeated name included.
\<close>

theorem get_party_names_document_order_witness:
  "get_party_names page_A =
     [''Strana X'', ''Strana Y'', ''Strana Z'', ''Strana U'', ''Strana X'', ''Strana W'']"
  unfolding get_party_names_document_order [of page_A]
  by code_simp

subsection \<open>The vote counts\<close>


lemma vote_step_party_row:
  "vote_step [] tr =
     (if find tr ''td'' [(''class'', ''overflow_name'')] \<noteq> None
      then [case find_vote_td (find_all tr ''td'' [(''class'', ''cislo'')]) of
              None \<Rightarrow> []
            | Some vote_td \<Rightarrow> replace_nbsp (strip (text_of vote_td))]
      else [])"
  by (simp add: vote_step_def split: option.splits)

lemma party_step_party_row:
  "length (party_step [] tr) =
     (if find tr ''td'' [(''class'', ''overflow_name'')] \<noteq> None then 1 else 0)"
  by (simp add: party_step_def split: option.splits)

lemma hlasy_of_party_rows:
  "hlasy_of soup =
     map (\<lambda>tr. case find_vote_td (find_all tr ''td'' [(''class'', ''cislo'')]) of
                  None \<Rightarrow> []
                | Some vote_td \<Rightarrow> replace_nbsp (strip (text_of vote_td)))
         (party_rows soup)"
proof -
  let ?vote = "\<lambda>tr. case find_vote_td (find_all tr ''td'' [(''class'', ''cislo'')]) of
                  None \<Rightarrow> []
                | Some vote_td \<Rightarrow> replace_nbsp (strip (text_of vote_td))"
  have "concat (map (vote_step []) rows) =
          map ?vote (filter (\<lambda>tr. find tr ''td'' [(''class'', ''overflow_name'')] \<noteq> None) rows)"
    for rows
    by (rule concat_map_filter_singleton) (simp add: vote_step_party_row)
  then show ?thesis
    by (simp add: hlasy_of_concat party_rows_def map_concat comp_def)
qed

lemma length_get_party_names: "length (get_party_names soup) = length (party_rows soup)"
proof -
  have "length (concat (map (party_step []) rows)) =
          length (filter (\<lambda>tr. find tr ''td'' [(''class'', ''overflow_name'')] \<noteq> None) rows)"
    for rows
    by (induction rows) (simp_all add: party_step_party_row)
  then show ?thesis
    by (simp add: get_party_names_concat party_rows_def length_concat comp_def)
qed

lemma parse_soup_Inr:
  "parse_soup soup = Inr row \<Longrightarrow> drop 3 row = hlasy_of soup \<and> length row = 3 + length (hlasy_of soup)"
  by (auto simp: parse_soup_def split: sum.splits)


lemma parse_soup_missing: "scalar_missing soup \<Longrightarrow> parse_soup soup = Inl AttributeError"
  by (auto simp: parse_soup_def scalar_def scalar_missing_def split: sum.splits option.splits)




text \<open>
  C10. On every page the party header and the vote-count segment have the same
  length, one entry per party row; so a row parsed from the page the header was
  taken from, with code and name in front, has as many columns as the header.
\<close>

theorem party_names_match_votes:
  "length (get_party_names soup) = length (hlasy_of soup)
   \<and> length (get_party_names soup) = length (party_rows soup)
   \<and> (\<forall>row code name. parse_soup soup = Inr row \<longrightarrow>
         length ([code, name] @ row) = length (csv_header (get_party_names soup)))"
proof -
  have "length (hlasy_of soup) = length (party_rows soup)"
    by (simp add: hlasy_of_party_rows)
  then show ?thesis
    by (auto simp: length_get_party_names csv_header_def dest: parse_soup_Inr)
qed

theorem party_names_match_votes_witness:
  "parse_soup page_A =
     Inr [''1000'', ''800'', ''790'', ''400'', ''390'', ''0'', ''0'', ''0'', ''0'']
   \<and> length ([''500054'', ''Querfurt'']
              @ [''1000'', ''800'', ''790'', ''400'', ''390'', ''0'', ''0'', ''0'', ''0''])
       = length (csv_header (get_party_names page_A))
   \<and> length (get_party_names page_A) = 6"
proof -
  have parsed: "parse_soup page_A =
      Inr [''1000'', ''800'', ''790'', ''400'', ''390'', ''0'', ''0'', ''0'', ''0'']"
    by code_simp
  have six: "length (party_rows page_A) = 6" by code_simp
  from party_names_match_votes [of page_A] parsed six show ?thesis
    by simp
qed

subsection \<open>The municipality links\<close>

lemma get_href: "get a ''href'' \<noteq> Some (Multi ts)"
  by (cases a) (auto simp: cdata_list_attribute_def split: option.splits)







subsection \<open>The written file\<close>

lemma special_simps [simp]:
  "special (CHR '','')" "special dquote" "special (CHR 0x0D)" "special (CHR 0x0A)"
  by (simp_all add: special_def)

lemma not_special:
  "\<not> special c \<Longrightarrow> c \<noteq> CHR '','' \<and> c \<noteq> dquote \<and> c \<noteq> CHR 0x0D \<and> c \<noteq> CHR 0x0A"
  by (auto simp: special_def)

lemma dquote_neq [simp]:
  "dquote \<noteq> CHR '',''" "dquote \<noteq> CHR 0x0D" "dquote \<noteq> CHR 0x0A"
  "CHR '','' \<noteq> dquote" "CHR 0x0D \<noteq> dquote" "CHR 0x0A \<noteq> dquote"
  by (simp_all add: dquote_def)

lemma in_field_plain:
  "\<not> list_ex special f \<Longrightarrow>
     foldl process_char (InField, g, row, rows) f = (InField, g @ f, row, rows)"
  by (induction f arbitrary: g) (auto dest: not_special)

lemma in_quoted_field:
  "foldl process_char (InQuotedField, g, row, rows)
       (concat (map (\<lambda>c. if c = dquote then [dquote, dquote] else [c]) f))
     = (InQuotedField, g @ f, row, rows)"
  by (induction f arbitrary: g) auto

text \<open>A written field followed by a comma or a carriage return, read from the start of a field.\<close>

lemma read_field_comma:
  "foldl process_char (StartField, [], row, rows) (write_field f @ '','')
     = (StartField, [], row @ [f], rows)"
proof (cases "list_ex special f")
  case True
  then show ?thesis
    by (simp add: write_field_def start_field_def in_quoted_field)
next
  case False
  show ?thesis
  proof (cases f)
    case Nil
    then show ?thesis by (simp add: write_field_def start_field_def)
  next
    case (Cons c cs)
    with False have "\<not> special c" "\<not> list_ex special cs" by auto
    with Cons False show ?thesis
      by (auto simp: write_field_def start_field_def in_field_plain dest: not_special)
  qed
qed

lemma read_field_cr:
  "foldl process_char (StartField, [], row, rows) (write_field f @ [CHR 0x0D])
     = (EatCRNL, [], [], rows @ [row @ [f]])"
proof (cases "list_ex special f")
  case True
  then show ?thesis
    by (simp add: write_field_def start_field_def in_quoted_field)
next
  case False
  show ?thesis
  proof (cases f)
    case Nil
    then show ?thesis by (simp add: write_field_def start_field_def)
  next
    case (Cons c cs)
    with False have "\<not> special c" "\<not> list_ex special cs" by auto
    with Cons False show ?thesis
      by (auto simp: write_field_def start_field_def in_field_plain dest: not_special)
  qed
qed

lemma read_fields:
  "fs \<noteq> [] \<Longrightarrow>
     foldl process_char (StartField, [], row, rows) (join_fields fs @ [CHR 0x0D])
       = (EatCRNL, [], [], rows @ [row @ fs])"
proof (induction fs arbitrary: row rule: join_fields.induct)
  case 1
  then show ?case by simp
next
  case (2 f)
  show ?case by (simp only: join_fields.simps read_field_cr)
next
  case (3 f g fs)
  have "foldl process_char (StartField, [], row, rows) (join_fields (f # g # fs) @ [CHR 0x0D])
      = foldl process_char (foldl process_char (StartField, [], row, rows) (write_field f @ '',''))
          (join_fields (g # fs) @ [CHR 0x0D])"
    by (simp only: join_fields.simps append_assoc foldl_append)
  also have "\<dots> = (EatCRNL, [], [], rows @ [(row @ [f]) @ (g # fs)])"
    unfolding read_field_comma by (rule "3.IH") simp
  finally show ?case by simp
qed

text \<open>The first character of a written row that is not a single empty field.\<close>

lemma write_field_hd:
  "write_field f = c # cs \<Longrightarrow> c \<noteq> CHR 0x0A \<and> c \<noteq> CHR 0x0D"
  by (cases f) (auto simp: write_field_def split: if_splits dest: not_special)

lemma join_fields_hd:
  "fs \<noteq> [] \<Longrightarrow> fs \<noteq> [[]] \<Longrightarrow>
     \<exists>c cs. join_fields fs = c # cs \<and> c \<noteq> CHR 0x0A \<and> c \<noteq> CHR 0x0D"
proof (induction fs rule: join_fields.induct)
  case 1
  then show ?case by simp
next
  case (2 f)
  then have "f \<noteq> []" by simp
  then have "write_field f \<noteq> []" by (auto simp: write_field_def)
  then obtain c cs where "write_field f = c # cs" by (cases "write_field f") auto
  with write_field_hd [OF this] show ?case by simp
next
  case (3 f g fs)
  show ?case
  proof (cases "write_field f")
    case Nil
    then show ?thesis by simp
  next
    case (Cons c cs)
    with write_field_hd [OF this] show ?thesis by simp
  qed
qed

lemma read_row:
  "foldl process_char (StartRecord, [], [], rows) (writerow fs) = (StartRecord, [], [], rows @ [fs])"
proof -
  consider "fs = []" | "fs = [[]]" | "fs \<noteq> []" "fs \<noteq> [[]]" by blast
  then show ?thesis
  proof cases
    case 1
    then show ?thesis by (simp add: writerow_def start_record_def)
  next
    case 2
    then show ?thesis by (simp add: writerow_def start_record_def start_field_def)
  next
    case 3
    from join_fields_hd [OF 3] obtain c cs where hd: "join_fields fs = c # cs"
      "c \<noteq> CHR 0x0A" "c \<noteq> CHR 0x0D"
      by blast
    have "foldl process_char (StartRecord, [], [], rows) (join_fields fs @ [CHR 0x0D])
        = foldl process_char (StartField, [], [], rows) (join_fields fs @ [CHR 0x0D])"
      unfolding hd(1) using hd(2,3) by (simp add: start_record_def)
    also have "\<dots> = (EatCRNL, [], [], rows @ [[] @ fs])"
      by (rule read_fields [OF 3(1)])
    finally have "foldl process_char (StartRecord, [], [], rows) (join_fields fs @ [CHR 0x0D])
        = (EatCRNL, [], [], rows @ [fs])"
      by simp
    moreover have "writerow fs = (join_fields fs @ [CHR 0x0D]) @ [CHR 0x0A]"
      using 3 by (simp add: writerow_def)
    ultimately show ?thesis by (simp only: foldl_append) simp
  qed
qed

lemma read_rows:
  "foldl process_char (StartRecord, [], [], rows) (writerows data) = (StartRecord, [], [], rows @ data)"
  by (induction data arbitrary: rows) (simp_all add: writerows_def read_row)

lemma reader_written: "reader (writerow header @ writerows data) = header # data"
  by (simp add: reader_def read_row read_rows)

text \<open>
  C9. \<open>save_to_csv\<close> writes the header row followed by the data rows, and reading
  the written text back as delimited text gives exactly the header and the rows,
  field for field, whatever characters the fields hold (commas, quotes, line ends),
  also for an empty row and for a row of one empty field.
\<close>

theorem csv_round_trip:
  "files (save_to_csv filename header data s) = files s @ [(filename, writerow header @ writerows data)]
   \<and> reader (writerow header @ writerows data) = header # data"
  by (simp add: save_to_csv_def reader_written)

text \<open>
  A header with a comma and a quote in its fields, a row with a line end in a field, an
  empty row and a row of one empty field.
\<close>

theorem csv_round_trip_witness:
  "reader (writerow [''code'', ''a,b'', [CHR ''x'', dquote, CHR ''y'']]
           @ writerows [[[CHR 0x0D, CHR 0x0A], []], [], [[]]])
     = [[''code'', ''a,b'', [CHR ''x'', dquote, CHR ''y'']], [[CHR 0x0D, CHR 0x0A], []], [], [[]]]
   \<and> writerow [''code'', ''a,b'', [CHR ''x'', dquote, CHR ''y'']]
     = ''code,'' @ [dquote] @ ''a,b'' @ [dquote] @ '',''
       @ [dquote, CHR ''x'', dquote, dquote, CHR ''y'', dquote] @ [CHR 0x0D, CHR 0x0A]"
proof -
  have "writerow [''code'', ''a,b'', [CHR ''x'', dquote, CHR ''y'']]
     = ''code,'' @ [dquote] @ ''a,b'' @ [dquote] @ '',''
       @ [dquote, CHR ''x'', dquote, dquote, CHR ''y'', dquote] @ [CHR 0x0D, CHR 0x0A]"
    by code_simp
  with csv_round_trip [of "''out.csv''" "[''code'', ''a,b'', [CHR ''x'', dquote, CHR ''y'']]"
      "[[[CHR 0x0D, CHR 0x0A], []], [], [[]]]" "\<lparr>world = (), requests = [], stdout = [], files = []\<rparr>"]
  show ?thesis by blast
qed

subsection \<open>The run\<close>

lemma pages_append [simp]: "pages (xs @ ys) = pages xs @ pages ys"
  by (simp add: pages_def)

lemma pages_Nil [simp]: "pages [] = []"
  by (simp add: pages_def)

lemma pages_single [simp]: "pages [(url, response)] = [(url, fetched response)]"
  by (simp add: pages_def)

lemma get_soup_result:
  assumes "get_soup net url s = (r, s')"
  shows "pages (requests s') = pages (requests s) @ [(url, r)]
         \<and> stdout s' = stdout s \<and> files s' = files s"
  using assms by (auto simp: get_soup_def split: prod.splits)

lemma print_simps [simp]:
  "requests (print m s) = requests s" "files (print m s) = files s"
  "stdout (print m s) = stdout s @ [m]" "world (print m s) = world s"
  by (simp_all add: print_def)

lemma parse_obec_data_Inr:
  assumes "parse_obec_data net url s = (Inr row, s')"
  shows "\<exists>soup. parse_soup soup = Inr row
           \<and> pages (requests s') = pages (requests s) @ [(url, Inr soup)] \<and> files s' = files s"
proof -
  obtain r s1 where g: "get_soup net url s = (r, s1)" by (cases "get_soup net url s")
  with assms obtain soup where "r = Inr soup" "parse_soup soup = Inr row" "s' = s1"
    by (auto simp: parse_obec_data_def split: sum.splits)
  with get_soup_result [OF g] show ?thesis by auto
qed

lemma parse_obec_data_Inl:
  assumes "parse_obec_data net url s = (Inl e, s')"
  shows "(pages (requests s') = pages (requests s) @ [(url, Inl e)]
          \<or> (\<exists>soup. parse_soup soup = Inl e \<and> pages (requests s') = pages (requests s) @ [(url, Inr soup)]))
         \<and> files s' = files s"
proof -
  obtain r s1 where g: "get_soup net url s = (r, s1)" by (cases "get_soup net url s")
  with assms have "s' = s1" "r = Inl e \<or> (\<exists>soup. r = Inr soup \<and> parse_soup soup = Inl e)"
    by (auto simp: parse_obec_data_def split: sum.splits)
  with get_soup_result [OF g] show ?thesis by auto
qed

lemma obec_loop_Inr:
  assumes "obec_loop net n i infos data s = (Inr data', s')"
  shows "\<exists>soups rows.
           list_all2 (\<lambda>soup row. parse_soup soup = Inr row) soups rows
           \<and> length soups = length infos
           \<and> pages (requests s') = pages (requests s) @ zip (map fst infos) (map Inr soups)
           \<and> data' = data @ map2 (\<lambda>info row. [fst (snd info), snd (snd info)] @ row) infos rows
           \<and> files s' = files s"
  using assms
proof (induction infos arbitrary: i data s)
  case Nil
  then show ?case by (intro exI [of _ "[]"]) simp
next
  case (Cons info rest)
  obtain link code name where info: "info = (link, code, name)" by (cases info)
  obtain r s1 where p: "parse_obec_data net link (print (MsgProgress i n name) s) = (r, s1)"
    by (cases "parse_obec_data net link (print (MsgProgress i n name) s)")
  from Cons.prems info p obtain row where r: "r = Inr row"
    and rest: "obec_loop net n (i + 1) rest (data @ [[code, name] @ row]) s1 = (Inr data', s')"
    by (auto split: sum.splits)
  from parse_obec_data_Inr [OF p [unfolded r]] obtain soup where soup:
    "parse_soup soup = Inr row"
    "pages (requests s1) = pages (requests s) @ [(link, Inr soup)]" "files s1 = files s"
    by auto
  from Cons.IH [OF rest] obtain soups rows where ih:
    "list_all2 (\<lambda>soup row. parse_soup soup = Inr row) soups rows"
    "length soups = length rest"
    "pages (requests s') = pages (requests s1) @ zip (map fst rest) (map Inr soups)"
    "data' = (data @ [[code, name] @ row]) @ map2 (\<lambda>info row. [fst (snd info), snd (snd info)] @ row) rest rows"
    "files s' = files s1"
    by blast
  show ?case
    apply (rule exI [of _ "soup # soups"])
    apply (rule exI [of _ "row # rows"])
    using soup ih info by simp
qed

lemma obec_loop_Inl:
  assumes "obec_loop net n i infos data s = (Inl e, s')"
  shows "files s' = files s
         \<and> (\<exists>soups url r. (\<forall>soup \<in> set soups. \<exists>row. parse_soup soup = Inr row)
               \<and> length soups < length infos
               \<and> pages (requests s') = pages (requests s) @ zip (map fst infos) (map Inr soups) @ [(url, r)]
               \<and> (r = Inl e \<or> (\<exists>soup. r = Inr soup \<and> parse_soup soup = Inl e)))"
  using assms
proof (induction infos arbitrary: i data s)
  case Nil
  then show ?case by simp
next
  case (Cons info rest)
  obtain link code name where info: "info = (link, code, name)" by (cases info)
  obtain r s1 where p: "parse_obec_data net link (print (MsgProgress i n name) s) = (r, s1)"
    by (cases "parse_obec_data net link (print (MsgProgress i n name) s)")
  show ?case
  proof (cases r)
    case (Inl e1)
    with Cons.prems info p have "e1 = e" "s' = s1" by auto
    with parse_obec_data_Inl [OF p [unfolded Inl]] show ?thesis
      apply (intro conjI)
       apply simp
      apply (rule exI [of _ "[]"])
      by auto
  next
    case (Inr row)
    with Cons.prems info p
    have rest: "obec_loop net n (i + 1) rest (data @ [[code, name] @ row]) s1 = (Inl e, s')"
      by auto
    from parse_obec_data_Inr [OF p [unfolded Inr]] obtain soup where soup:
      "parse_soup soup = Inr row"
      "pages (requests s1) = pages (requests s) @ [(link, Inr soup)]" "files s1 = files s"
      by auto
    from Cons.IH [OF rest] obtain soups url r where ih:
      "files s' = files s1" "\<forall>soup \<in> set soups. \<exists>row. parse_soup soup = Inr row"
      "length soups < length rest"
      "pages (requests s') = pages (requests s1) @ zip (map fst rest) (map Inr soups) @ [(url, r)]"
      "r = Inl e \<or> (\<exists>soup. r = Inr soup \<and> parse_soup soup = Inl e)"
      by blast
    show ?thesis
      apply (intro conjI)
      using ih soup apply simp
      apply (rule exI [of _ "soup # soups"])
      apply (rule exI [of _ url])
      apply (rule exI [of _ r])
      using soup ih info by simp
  qed
qed

lemma validate_msgs: "fst (validate_arguments argv) \<Longrightarrow> snd (validate_arguments argv) = []"
  by (auto simp: validate_arguments_def split: if_splits)

lemma main_cases [consumes 1, case_names invalid no_unit_page no_obce no_first_page loop_failed written]:
  assumes "main net join argv w = (r, s)"
  obtains
    "\<not> fst (validate_arguments argv)" "r = Inr ()"
    "s = \<lparr>world = w, requests = [], stdout = snd (validate_arguments argv), files = []\<rparr>"
  | e where "fst (validate_arguments argv)"
      "get_soup net (argv ! 1) (print MsgLoadingMain \<lparr>world = w, requests = [], stdout = [], files = []\<rparr>) = (Inl e, s)"
      "r = Inl e"
  | main_soup s1 where "fst (validate_arguments argv)"
      "get_soup net (argv ! 1) (print MsgLoadingMain \<lparr>world = w, requests = [], stdout = [], files = []\<rparr>) = (Inr main_soup, s1)"
      "get_obec_links join main_soup (argv ! 1) = []" "r = Inr ()" "s = print MsgNoObce s1"
  | main_soup s1 e where "fst (validate_arguments argv)"
      "get_soup net (argv ! 1) (print MsgLoadingMain \<lparr>world = w, requests = [], stdout = [], files = []\<rparr>) = (Inr main_soup, s1)"
      "get_obec_links join main_soup (argv ! 1) \<noteq> []"
      "get_soup net (fst (hd (get_obec_links join main_soup (argv ! 1)))) (print MsgLoadingParties s1) = (Inl e, s)"
      "r = Inl e"
  | main_soup s1 first_obec_soup s2 e where "fst (validate_arguments argv)"
      "get_soup net (argv ! 1) (print MsgLoadingMain \<lparr>world = w, requests = [], stdout = [], files = []\<rparr>) = (Inr main_soup, s1)"
      "get_obec_links join main_soup (argv ! 1) \<noteq> []"
      "get_soup net (fst (hd (get_obec_links join main_soup (argv ! 1)))) (print MsgLoadingParties s1) = (Inr first_obec_soup, s2)"
      "obec_loop net (length (get_obec_links join main_soup (argv ! 1))) 1 (get_obec_links join main_soup (argv ! 1)) [] s2 = (Inl e, s)"
      "r = Inl e"
  | main_soup s1 first_obec_soup s2 data s3 where "fst (validate_arguments argv)"
      "get_soup net (argv ! 1) (print MsgLoadingMain \<lparr>world = w, requests = [], stdout = [], files = []\<rparr>) = (Inr main_soup, s1)"
      "get_obec_links join main_soup (argv ! 1) \<noteq> []"
      "get_soup net (fst (hd (get_obec_links join main_soup (argv ! 1)))) (print MsgLoadingParties s1) = (Inr first_obec_soup, s2)"
      "obec_loop net (length (get_obec_links join main_soup (argv ! 1))) 1 (get_obec_links join main_soup (argv ! 1)) [] s2 = (Inr data, s3)"
      "r = Inr ()"
      "s = print (MsgDone (argv ! 2)) (save_to_csv (argv ! 2) (csv_header (get_party_names first_obec_soup)) data s3)"
  using assms unfolding main_def Let_def
  by (simp split: if_splits prod.splits sum.splits add: validate_msgs)

lemma main_written:
  assumes "main net join argv w = (r, s)" and "files s \<noteq> []"
  shows "\<exists>main_soup first_obec_soup soups rows.
           r = Inr () \<and> fst (validate_arguments argv)
           \<and> get_obec_links join main_soup (argv ! 1) \<noteq> []
           \<and> pages (requests s) =
                [(argv ! 1, Inr main_soup),
                 (fst (hd (get_obec_links join main_soup (argv ! 1))), Inr first_obec_soup)]
                @ zip (map fst (get_obec_links join main_soup (argv ! 1))) (map Inr soups)
           \<and> length soups = length (get_obec_links join main_soup (argv ! 1))
           \<and> list_all2 (\<lambda>soup row. parse_soup soup = Inr row) soups rows
           \<and> files s =
                [(argv ! 2,
                  writerow (csv_header (get_party_names first_obec_soup))
                  @ writerows (map2 (\<lambda>info row. [fst (snd info), snd (snd info)] @ row)
                                 (get_obec_links join main_soup (argv ! 1)) rows))]"
  using assms(1)
proof (cases rule: main_cases)
  case invalid
  with assms(2) show ?thesis by simp
next
  case (no_unit_page e)
  from get_soup_result [OF no_unit_page(2)] assms(2) show ?thesis by simp
next
  case (no_obce main_soup s1)
  from get_soup_result [OF no_obce(2)] no_obce(5) assms(2) show ?thesis by simp
next
  case (no_first_page main_soup s1 e)
  from get_soup_result [OF no_first_page(2)] get_soup_result [OF no_first_page(4)] assms(2)
  show ?thesis by simp
next
  case (loop_failed main_soup s1 first_obec_soup s2 e)
  from get_soup_result [OF loop_failed(2)] get_soup_result [OF loop_failed(4)]
    obec_loop_Inl [OF loop_failed(5)] assms(2)
  show ?thesis by simp
next
  case (written main_soup s1 first_obec_soup s2 data s3)
  from obec_loop_Inr [OF written(5)] obtain soups rows where loop:
    "list_all2 (\<lambda>soup row. parse_soup soup = Inr row) soups rows"
    "length soups = length (get_obec_links join main_soup (argv ! 1))"
    "pages (requests s3) = pages (requests s2)
       @ zip (map fst (get_obec_links join main_soup (argv ! 1))) (map Inr soups)"
    "data = [] @ map2 (\<lambda>info row. [fst (snd info), snd (snd info)] @ row)
                   (get_obec_links join main_soup (argv ! 1)) rows"
    "files s3 = files s2"
    by blast
  show ?thesis
    apply (rule exI [of _ main_soup])
    apply (rule exI [of _ first_obec_soup])
    apply (rule exI [of _ soups])
    apply (rule exI [of _ rows])
    using get_soup_result [OF written(2)] get_soup_result [OF written(4)] loop written
    by (simp add: save_to_csv_def)
qed

lemma main_error:
  assumes "main net join argv w = (Inl e, s)"
  shows "files s = []"
  using assms
proof (cases rule: main_cases)
  case (no_unit_page e)
  from get_soup_result [OF no_unit_page(2)] show ?thesis by simp
next
  case (no_first_page main_soup s1 e)
  from get_soup_result [OF no_first_page(2)] get_soup_result [OF no_first_page(4)]
  show ?thesis by simp
next
  case (loop_failed main_soup s1 first_obec_soup s2 e)
  from get_soup_result [OF loop_failed(2)] get_soup_result [OF loop_failed(4)]
    obec_loop_Inl [OF loop_failed(5)]
  show ?thesis by simp
qed simp_all

lemma main_log:
  assumes "main net join argv w = (r, s)"
  shows "(\<forall>url e. (url, Inl e) \<in> set (pages (requests s)) \<longrightarrow> r = Inl e)
         \<and> (\<forall>url soup. (url, Inr soup) \<in> set (drop 2 (pages (requests s))) \<and> scalar_missing soup
               \<longrightarrow> r = Inl AttributeError)"
  using assms
proof (cases rule: main_cases)
  case invalid
  then show ?thesis by simp
next
  case (no_unit_page e)
  from get_soup_result [OF no_unit_page(2)] no_unit_page(3) show ?thesis by simp
next
  case (no_obce main_soup s1)
  from get_soup_result [OF no_obce(2)] no_obce(5) show ?thesis by simp
next
  case (no_first_page main_soup s1 e)
  from get_soup_result [OF no_first_page(2)] get_soup_result [OF no_first_page(4)] no_first_page(5)
  show ?thesis by simp
next
  case (loop_failed main_soup s1 first_obec_soup s2 e)
  define urls where "urls = map fst (get_obec_links join main_soup (argv ! 1))"
  let ?oks = "\<lambda>soups. zip urls (map Inr soups) :: (string \<times> (error + node)) list"
  from obec_loop_Inl [OF loop_failed(5)] obtain soups url x where loop:
    "\<forall>soup \<in> set soups. \<exists>row. parse_soup soup = Inr row"
    "pages (requests s) = pages (requests s2) @ ?oks soups @ [(url, x)]"
    "x = Inl e \<or> (\<exists>soup. x = Inr soup \<and> parse_soup soup = Inl e)"
    unfolding urls_def by blast
  from get_soup_result [OF loop_failed(2)] get_soup_result [OF loop_failed(4)] loop(2)
  obtain p0 p1 where log: "pages (requests s) = (p0, Inr main_soup) # (p1, Inr first_obec_soup)
      # ?oks soups @ [(url, x)]"
    by simp
  have inr: "\<exists>soup \<in> set soups. y = Inr soup" if "(u, y) \<in> set (?oks soups)" for u y
    using set_zip_rightD [OF that] by auto
  show ?thesis
  proof (intro conjI allI impI)
    fix u e'
    assume "(u, Inl e') \<in> set (pages (requests s))"
    with log inr have "x = Inl e'" by auto
    with loop(3) loop_failed(6) show "r = Inl e'" by auto
  next
    fix u soup
    assume a: "(u, Inr soup) \<in> set (drop 2 (pages (requests s))) \<and> scalar_missing soup"
    then have bad: "parse_soup soup = Inl AttributeError" by (simp add: parse_soup_missing)
    from a have "(u, Inr soup) \<in> set (?oks soups @ [(url, x)])"
      unfolding log by simp
    then have "(u, Inr soup) \<in> set (?oks soups) \<or> x = Inr soup"
      by auto
    then show "r = Inl AttributeError"
    proof
      assume "(u, Inr soup) \<in> set (?oks soups)"
      from inr [OF this] have "soup \<in> set soups" by auto
      with loop(1) bad show ?thesis by auto
    next
      assume "x = Inr soup"
      with loop(3) bad loop_failed(6) show ?thesis by auto
    qed
  qed
next
  case (written main_soup s1 first_obec_soup s2 data s3)
  define urls where "urls = map fst (get_obec_links join main_soup (argv ! 1))"
  let ?oks = "\<lambda>soups. zip urls (map Inr soups) :: (string \<times> (error + node)) list"
  from obec_loop_Inr [OF written(5)] obtain soups rows where loop:
    "list_all2 (\<lambda>soup row. parse_soup soup = Inr row) soups rows"
    "pages (requests s3) = pages (requests s2) @ ?oks soups"
    unfolding urls_def by blast
  from get_soup_result [OF written(2)] get_soup_result [OF written(4)] loop(2) written(7)
  obtain p0 p1 where log: "pages (requests s) = (p0, Inr main_soup) # (p1, Inr first_obec_soup)
      # ?oks soups"
    by (simp add: save_to_csv_def)
  have inr: "\<exists>soup \<in> set soups. y = Inr soup" if "(u, y) \<in> set (?oks soups)" for u y
    using set_zip_rightD [OF that] by auto
  show ?thesis
  proof (intro conjI allI impI)
    fix u e'
    assume "(u, Inl e') \<in> set (pages (requests s))"
    with log inr show "r = Inl e'" by auto
  next
    fix u soup
    assume a: "(u, Inr soup) \<in> set (drop 2 (pages (requests s))) \<and> scalar_missing soup"
    then have bad: "parse_soup soup = Inl AttributeError" by (simp add: parse_soup_missing)
    from a have "(u, Inr soup) \<in> set (?oks soups)"
      unfolding log by simp
    from inr [OF this] have "soup \<in> set soups" by auto
    with loop(1) obtain row where "parse_soup soup = Inr row"
      by (auto simp: list_all2_conv_all_nth in_set_conv_nth)
    with bad show "r = Inl AttributeError" by simp
  qed
qed

lemma example_argv_nth:
  "example_argv ! 1 = example_url" "example_argv ! Suc 0 = example_url" "example_argv ! 2 = ''out.csv''"
  by (simp_all add: example_argv_def)

lemma example_valid: "validate_arguments example_argv = (True, [])"
  by (simp add: validate_arguments_def example_argv_def example_url_def suffix_to_prefix)

lemma urls_distinct: "example_url \<noteq> url_A" "example_url \<noteq> url_B" "url_A \<noteq> url_B"
  "url_A \<noteq> example_url" "url_B \<noteq> example_url" "url_B \<noteq> url_A"
  by (simp_all add: example_url_def url_A_def url_B_def)

lemma unit_page_links:
  "get_obec_links example_join unit_page example_url =
     [(url_A, ''500054'', ''Querfurt''), (url_B, ''500062'', ''Beispiel'')]"
  by code_simp

lemma page_A_names:
  "get_party_names page_A =
     [''Strana X'', ''Strana Y'', ''Strana Z'', ''Strana U'', ''Strana X'', ''Strana W'']"
  by code_simp

lemma page_A_row:
  "parse_soup page_A = Inr [''1000'', ''800'', ''790'', ''400'', ''390'', ''0'', ''0'', ''0'', ''0'']"
  by code_simp

lemma page_B_row: "parse_soup page_B = Inr [''2000'', ''1500'', ''1480'', ''700'']"
  by code_simp

lemma page_D_row: "parse_soup page_D = Inl AttributeError"
  by code_simp

lemmas run_simps = main_def Let_def get_soup_def fetched_def print_def parse_obec_data_def
  save_to_csv_def serve_def example_argv_nth example_valid urls_distinct unit_page_links
  page_A_names page_A_row page_B_row page_D_row

lemma example_run:
  "main example_net example_join example_argv () =
     (Inr (),
      \<lparr>world = (),
       requests = [(example_url, Response 200 unit_page), (url_A, Response 200 page_A),
                   (url_A, Response 200 page_A), (url_B, Response 200 page_B)],
       stdout = [MsgLoadingMain, MsgLoadingParties, MsgProgress 1 2 ''Querfurt'',
                 MsgProgress 2 2 ''Beispiel'', MsgDone ''out.csv''],
       files = [(''out.csv'',
                 writerow (csv_header [''Strana X'', ''Strana Y'', ''Strana Z'', ''Strana U'',
                                       ''Strana X'', ''Strana W''])
                 @ writerows
                     [[''500054'', ''Querfurt'', ''1000'', ''800'', ''790'', ''400'', ''390'', ''0'',
                       ''0'', ''0'', ''0''],
                      [''500062'', ''Beispiel'', ''2000'', ''1500'', ''1480'', ''700'']])]\<rparr>)"
  by (simp add: run_simps example_net_def)

lemma not_found_run:
  "main net_not_found example_join example_argv () =
     (Inl (HTTPError 404),
      \<lparr>world = (),
       requests = [(example_url, Response 200 unit_page), (url_A, Response 200 page_A),
                   (url_A, Response 200 page_A),
                   (url_B, Response 404 (Tag ''[document]'' [] [Text ''Not Found'']))],
       stdout = [MsgLoadingMain, MsgLoadingParties, MsgProgress 1 2 ''Querfurt'',
                 MsgProgress 2 2 ''Beispiel''],
       files = []\<rparr>)"
  by (simp add: run_simps net_not_found_def)

lemma malformed_run:
  "main net_malformed example_join example_argv () =
     (Inl AttributeError,
      \<lparr>world = (),
       requests = [(example_url, Response 200 unit_page), (url_A, Response 200 page_A),
                   (url_A, Response 200 page_A), (url_B, Response 200 page_D)],
       stdout = [MsgLoadingMain, MsgLoadingParties, MsgProgress 1 2 ''Querfurt'',
                 MsgProgress 2 2 ''Beispiel''],
       files = []\<rparr>)"
  by (simp add: run_simps net_malformed_def)

lemma pages_mem: "(url, response) \<in> set log \<Longrightarrow> (url, fetched response) \<in> set (pages log)"
  by (force simp: pages_def)

lemma pages_drop: "drop n (pages log) = pages (drop n log)"
  by (simp add: pages_def drop_map)

lemma fetched_Inl:
  "(\<exists>e. fetched response = Inl e) =
     (response = NoResponse \<or> (\<exists>code soup. response = Response code soup \<and> 400 \<le> code \<and> code < 600))"
  by (cases response) (auto simp: fetched_def)

text \<open>
  C7, as amended. A request fails when there is no response or when the status code is
  one of 400 to 599, the codes \<open>raise_for_status()\<close> raises for. If any request of the
  run failed, the run ended with that error; if any page fetched by
  \<open>parse_obec_data\<close> (every request after the first two, which are for the
  territorial unit and for the party header) lacks one of the cells \<open>sa2\<close>, \<open>sa3\<close>,
  \<open>sa6\<close>, the run ended with \<open>AttributeError\<close>; and a run that ended with an error
  wrote no file, \<open>save_to_csv\<close> being reached only after the last page is parsed.
\<close>

theorem main_failure:
  assumes "main net join argv w = (r, s)"
  shows "(\<forall>url response e. (url, response) \<in> set (requests s) \<and> fetched response = Inl e
            \<longrightarrow> r = Inl e \<and> files s = [])
       \<and> (\<forall>url response soup. (url, response) \<in> set (drop 2 (requests s))
              \<and> fetched response = Inr soup \<and> scalar_missing soup
            \<longrightarrow> r = Inl AttributeError \<and> files s = [])
       \<and> (\<forall>e. r = Inl e \<longrightarrow> files s = [])
       \<and> (\<forall>response. (\<exists>e. fetched response = Inl e) =
            (response = NoResponse
             \<or> (\<exists>code soup. response = Response code soup \<and> 400 \<le> code \<and> code < 600)))"
proof (intro conjI allI impI)
  fix url response e
  assume a: "(url, response) \<in> set (requests s) \<and> fetched response = Inl e"
  then have "(url, Inl e) \<in> set (pages (requests s))" by (auto dest: pages_mem)
  with main_log [OF assms] show "r = Inl e" by blast
  with assms show "files s = []" by (simp add: main_error)
next
  fix url response soup
  assume a: "(url, response) \<in> set (drop 2 (requests s)) \<and> fetched response = Inr soup
      \<and> scalar_missing soup"
  then have "(url, Inr soup) \<in> set (drop 2 (pages (requests s)))"
    unfolding pages_drop by (auto dest: pages_mem)
  with a main_log [OF assms] show "r = Inl AttributeError" by blast
  with assms show "files s = []" by (simp add: main_error)
next
  fix e
  assume "r = Inl e"
  with assms show "files s = []" by (simp add: main_error)
next
  fix response
  show "(\<exists>e. fetched response = Inl e) =
     (response = NoResponse \<or> (\<exists>code soup. response = Response code soup \<and> 400 \<le> code \<and> code < 600))"
    by (rule fetched_Inl)
qed

text \<open>
  The second municipality answers 404 in one run and lacks the cell \<open>sa6\<close> in
  another: both runs end with the error and write nothing.
\<close>

theorem main_failure_witness:
  "(url_B, Response 404 (Tag ''[document]'' [] [Text ''Not Found'']))
      \<in> set (requests (snd not_found_result))
   \<and> fetched (Response 404 (Tag ''[document]'' [] [Text ''Not Found''])) = Inl (HTTPError 404)
   \<and> fst not_found_result = Inl (HTTPError 404)
   \<and> files (snd not_found_result) = []
   \<and> (url_B, Response 200 page_D) \<in> set (drop 2 (requests (snd malformed_result)))
   \<and> fetched (Response 200 page_D) = Inr page_D
   \<and> scalar_missing page_D
   \<and> fst malformed_result = Inl AttributeError
   \<and> files (snd malformed_result) = []"
proof -
  have run1: "main net_not_found example_join example_argv () = (fst not_found_result, snd not_found_result)"
    and run2: "main net_malformed example_join example_argv () = (fst malformed_result, snd malformed_result)"
    by (simp_all add: not_found_result_def malformed_result_def)
  have in1: "(url_B, Response 404 (Tag ''[document]'' [] [Text ''Not Found'']))
      \<in> set (requests (snd not_found_result))"
    by (simp add: not_found_result_def not_found_run)
  have f1: "fetched (Response 404 (Tag ''[document]'' [] [Text ''Not Found''])) = Inl (HTTPError 404)"
    by (simp add: fetched_def)
  have in2: "(url_B, Response 200 page_D) \<in> set (drop 2 (requests (snd malformed_result)))"
    by (simp add: malformed_result_def malformed_run)
  have f2: "fetched (Response 200 page_D) = Inr page_D"
    by (simp add: fetched_def)
  have missing: "scalar_missing page_D" by code_simp
  from main_failure [OF run1] in1 f1
  have "fst not_found_result = Inl (HTTPError 404) \<and> files (snd not_found_result) = []"
    by blast
  moreover from main_failure [OF run2] in2 f2 missing
  have "fst malformed_result = Inl AttributeError \<and> files (snd malformed_result) = []"
    by blast
  ultimately show ?thesis using in1 f1 in2 f2 missing by blast
qed

lemma multiple_choices_run:
  "main net_multiple_choices example_join example_argv () =
     (Inr (),
      \<lparr>world = (),
       requests = [(example_url, Response 200 unit_page), (url_A, Response 200 page_A),
                   (url_A, Response 200 page_A), (url_B, Response 300 page_B)],
       stdout = [MsgLoadingMain, MsgLoadingParties, MsgProgress 1 2 ''Querfurt'',
                 MsgProgress 2 2 ''Beispiel'', MsgDone ''out.csv''],
       files = [(''out.csv'',
                 writerow (csv_header [''Strana X'', ''Strana Y'', ''Strana Z'', ''Strana U'',
                                       ''Strana X'', ''Strana W''])
                 @ writerows
                     [[''500054'', ''Querfurt'', ''1000'', ''800'', ''790'', ''400'', ''390'', ''0'',
                       ''0'', ''0'', ''0''],
                      [''500062'', ''Beispiel'', ''2000'', ''1500'', ''1480'', ''700'']])]\<rparr>)"
  by (simp add: run_simps net_multiple_choices_def)

text \<open>
  C7 as stated fails for a status that is neither a success nor one of 400 to 599:
  when the page of the second municipality is answered with status 300,
  \<open>raise_for_status()\<close> does not raise, the body is parsed, the run returns normally
  and the file is written.
\<close>

theorem non_success_status_counterexample:
  "\<not> success_status 300
   \<and> (url_B, Response 300 page_B) \<in> set (requests (snd multiple_choices_result))
   \<and> fetched (Response 300 page_B) = Inr page_B
   \<and> fst multiple_choices_result = Inr ()
   \<and> files (snd multiple_choices_result) =
       [(''out.csv'',
         writerow (csv_header [''Strana X'', ''Strana Y'', ''Strana Z'', ''Strana U'',
                               ''Strana X'', ''Strana W''])
         @ writerows
             [[''500054'', ''Querfurt'', ''1000'', ''800'', ''790'', ''400'', ''390'', ''0'',
               ''0'', ''0'', ''0''],
              [''500062'', ''Beispiel'', ''2000'', ''1500'', ''1480'', ''700'']])]
   \<and> files (snd multiple_choices_result) \<noteq> []"
  by (simp add: multiple_choices_result_def multiple_choices_run success_status_def fetched_def)

text \<open>
  C8. With valid arguments, a territorial-unit page that is fetched and yields no
  municipality makes \<open>main\<close> print the diagnostic and return normally: the only
  request of the run is the one for the unit page, and no file is written.
\<close>

theorem main_no_municipalities:
  assumes "fst (validate_arguments argv)"
    and "net w (argv ! 1) = (response, w')"
    and "fetched response = Inr soup"
    and "get_obec_links join soup (argv ! 1) = []"
  shows "main net join argv w =
           (Inr (),
            \<lparr>world = w', requests = [(argv ! 1, response)],
             stdout = [MsgLoadingMain, MsgNoObce], files = []\<rparr>)"
  using assms by (simp add: main_def Let_def get_soup_def print_def validate_msgs)

theorem main_no_municipalities_witness:
  "fst (validate_arguments example_argv)
   \<and> net_empty () (example_argv ! 1) = (Response 200 empty_unit_page, ())
   \<and> get_obec_links example_join empty_unit_page (example_argv ! 1) = []
   \<and> main net_empty example_join example_argv () =
       (Inr (),
        \<lparr>world = (), requests = [(example_argv ! 1, Response 200 empty_unit_page)],
         stdout = [MsgLoadingMain, MsgNoObce], files = []\<rparr>)"
proof -
  have valid: "fst (validate_arguments example_argv)" by (simp add: example_valid)
  have net: "net_empty () (example_argv ! 1) = (Response 200 empty_unit_page, ())"
    by (simp add: net_empty_def serve_def example_argv_nth)
  have ok: "fetched (Response 200 empty_unit_page) = Inr empty_unit_page"
    by (simp add: fetched_def)
  have "get_obec_links example_join empty_unit_page example_url = []" by code_simp
  then have none: "get_obec_links example_join empty_unit_page (example_argv ! 1) = []"
    by (simp add: example_argv_nth)
  from main_no_municipalities
         [of example_argv net_empty "()" "Response 200 empty_unit_page" "()" empty_unit_page example_join,
          OF valid net ok none]
    valid net none
  show ?thesis by simp
qed

lemma row_of_info:
  "(\<lambda>(link, code, name) row. [code, name] @ row)
     = (\<lambda>info row. [fst (snd info), snd (snd info)] @ row)"
  by (simp add: fun_eq_iff split: prod.splits)

text \<open>
  C6. A run that writes its file returns normally, and the file holds the header
  \<open>code, location, registered, envelopes, valid\<close> followed by the party names of the
  page fetched second (the first municipality's), then one row per municipality in
  the order of \<open>get_obec_links\<close>, each the code and the name followed by what
  \<open>parse_obec_data\<close> returned for the page fetched for it; reading the file back
  gives this header and these rows.
\<close>

theorem main_output:
  assumes "main net join argv w = (r, s)" and "files s \<noteq> []"
  shows "\<exists>main_soup first_obec_soup soups rows.
           r = Inr ()
           \<and> pages (requests s) =
                [(argv ! 1, Inr main_soup),
                 (fst (hd (get_obec_links join main_soup (argv ! 1))), Inr first_obec_soup)]
                @ zip (map fst (get_obec_links join main_soup (argv ! 1))) (map Inr soups)
           \<and> list_all2 (\<lambda>soup row. parse_soup soup = Inr row) soups rows
           \<and> length rows = length (get_obec_links join main_soup (argv ! 1))
           \<and> files s =
                [(argv ! 2,
                  writerow ([''code'', ''location'', ''registered'', ''envelopes'', ''valid'']
                            @ get_party_names first_obec_soup)
                  @ writerows (map2 (\<lambda>(link, code, name) row. [code, name] @ row)
                                 (get_obec_links join main_soup (argv ! 1)) rows))]
           \<and> reader (snd (hd (files s))) =
                ([''code'', ''location'', ''registered'', ''envelopes'', ''valid'']
                 @ get_party_names first_obec_soup)
                # map2 (\<lambda>(link, code, name) row. [code, name] @ row)
                    (get_obec_links join main_soup (argv ! 1)) rows"
proof -
  from main_written [OF assms] obtain main_soup first_obec_soup soups rows where w:
    "r = Inr ()"
    "pages (requests s) =
       [(argv ! 1, Inr main_soup),
        (fst (hd (get_obec_links join main_soup (argv ! 1))), Inr first_obec_soup)]
       @ zip (map fst (get_obec_links join main_soup (argv ! 1))) (map Inr soups)"
    "length soups = length (get_obec_links join main_soup (argv ! 1))"
    "list_all2 (\<lambda>soup row. parse_soup soup = Inr row) soups rows"
    "files s =
       [(argv ! 2,
         writerow (csv_header (get_party_names first_obec_soup))
         @ writerows (map2 (\<lambda>info row. [fst (snd info), snd (snd info)] @ row)
                        (get_obec_links join main_soup (argv ! 1)) rows))]"
    by blast
  from w(3,4) have len: "length rows = length (get_obec_links join main_soup (argv ! 1))"
    by (simp add: list_all2_lengthD [symmetric])
  show ?thesis
    apply (rule exI [of _ main_soup])
    apply (rule exI [of _ first_obec_soup])
    apply (rule exI [of _ soups])
    apply (rule exI [of _ rows])
    using w len by (simp only: row_of_info reader_written csv_header_def list.sel snd_conv)
qed

text \<open>
  C1, as amended. In a run that writes its file, the vote-count segment of every
  municipality's row has one entry per party row of the page fetched for that
  municipality; it has the length of the party list exactly when that page has as
  many party rows as the page the party list was taken from.
\<close>

theorem row_lengths:
  assumes "main net join argv w = (r, s)" and "files s \<noteq> []"
  shows "\<exists>main_soup first_obec_soup soups rows.
           pages (requests s) =
                [(argv ! 1, Inr main_soup),
                 (fst (hd (get_obec_links join main_soup (argv ! 1))), Inr first_obec_soup)]
                @ zip (map fst (get_obec_links join main_soup (argv ! 1))) (map Inr soups)
           \<and> files s =
                [(argv ! 2,
                  writerow (csv_header (get_party_names first_obec_soup))
                  @ writerows (map2 (\<lambda>(link, code, name) row. [code, name] @ row)
                                 (get_obec_links join main_soup (argv ! 1)) rows))]
           \<and> list_all2
                (\<lambda>soup row. parse_soup soup = Inr row
                   \<and> length (drop 3 row) = length (party_rows soup)
                   \<and> (length (drop 3 row) = length (get_party_names first_obec_soup))
                       = (length (party_rows soup) = length (party_rows first_obec_soup)))
                soups rows"
proof -
  from main_written [OF assms] obtain main_soup first_obec_soup soups rows where w:
    "pages (requests s) =
       [(argv ! 1, Inr main_soup),
        (fst (hd (get_obec_links join main_soup (argv ! 1))), Inr first_obec_soup)]
       @ zip (map fst (get_obec_links join main_soup (argv ! 1))) (map Inr soups)"
    "list_all2 (\<lambda>soup row. parse_soup soup = Inr row) soups rows"
    "files s =
       [(argv ! 2,
         writerow (csv_header (get_party_names first_obec_soup))
         @ writerows (map2 (\<lambda>info row. [fst (snd info), snd (snd info)] @ row)
                        (get_obec_links join main_soup (argv ! 1)) rows))]"
    by blast
  have "parse_soup soup = Inr row
          \<and> length (drop 3 row) = length (party_rows soup)
          \<and> (length (drop 3 row) = length (get_party_names first_obec_soup))
              = (length (party_rows soup) = length (party_rows first_obec_soup))"
    if "parse_soup soup = Inr row" for soup row
    using that parse_soup_Inr [OF that]
    by (simp add: hlasy_of_party_rows length_get_party_names)
  with w(2) have all2: "list_all2
      (\<lambda>soup row. parse_soup soup = Inr row
         \<and> length (drop 3 row) = length (party_rows soup)
         \<and> (length (drop 3 row) = length (get_party_names first_obec_soup))
             = (length (party_rows soup) = length (party_rows first_obec_soup)))
      soups rows"
    by (rule_tac list_all2_mono [OF w(2)]) blast
  show ?thesis
    apply (rule exI [of _ main_soup])
    apply (rule exI [of _ first_obec_soup])
    apply (rule exI [of _ soups])
    apply (rule exI [of _ rows])
    using w(1,3) all2 by (simp only: row_of_info)
qed

text \<open>
  C1 as stated fails on the example run: the party list of the first municipality
  has six names, the page of the second municipality has one party row, and its row
  is written with a vote-count segment of one entry, without placeholders.
\<close>

theorem row_length_counterexample:
  "example_result =
     (Inr (),
      \<lparr>world = (),
       requests = [(example_url, Response 200 unit_page), (url_A, Response 200 page_A),
                   (url_A, Response 200 page_A), (url_B, Response 200 page_B)],
       stdout = [MsgLoadingMain, MsgLoadingParties, MsgProgress 1 2 ''Querfurt'',
                 MsgProgress 2 2 ''Beispiel'', MsgDone ''out.csv''],
       files = [(''out.csv'',
                 writerow (csv_header [''Strana X'', ''Strana Y'', ''Strana Z'', ''Strana U'',
                                       ''Strana X'', ''Strana W''])
                 @ writerows
                     [[''500054'', ''Querfurt'', ''1000'', ''800'', ''790'', ''400'', ''390'', ''0'',
                       ''0'', ''0'', ''0''],
                      [''500062'', ''Beispiel'', ''2000'', ''1500'', ''1480'', ''700'']])]\<rparr>)
   \<and> get_party_names page_A =
       [''Strana X'', ''Strana Y'', ''Strana Z'', ''Strana U'', ''Strana X'', ''Strana W'']
   \<and> parse_soup page_B = Inr [''2000'', ''1500'', ''1480'', ''700'']
   \<and> drop 3 [''2000'', ''1500'', ''1480'', ''700''] = [''700'']
   \<and> length (drop 3 [''2000'', ''1500'', ''1480'', ''700'']) \<noteq> length (get_party_names page_A)"
  by (simp add: example_result_def example_run page_A_names page_B_row)

theorem main_output_witness:
  "files (snd example_result) \<noteq> []
   \<and> (\<exists>main_soup first_obec_soup soups rows.
         fst example_result = Inr ()
         \<and> pages (requests (snd example_result)) =
              [(example_argv ! 1, Inr main_soup),
               (fst (hd (get_obec_links example_join main_soup (example_argv ! 1))), Inr first_obec_soup)]
              @ zip (map fst (get_obec_links example_join main_soup (example_argv ! 1))) (map Inr soups)
         \<and> list_all2 (\<lambda>soup row. parse_soup soup = Inr row) soups rows
         \<and> length rows = length (get_obec_links example_join main_soup (example_argv ! 1))
         \<and> files (snd example_result) =
              [(example_argv ! 2,
                writerow ([''code'', ''location'', ''registered'', ''envelopes'', ''valid'']
                          @ get_party_names first_obec_soup)
                @ writerows (map2 (\<lambda>(link, code, name) row. [code, name] @ row)
                               (get_obec_links example_join main_soup (example_argv ! 1)) rows))]
         \<and> reader (snd (hd (files (snd example_result)))) =
              ([''code'', ''location'', ''registered'', ''envelopes'', ''valid'']
               @ get_party_names first_obec_soup)
              # map2 (\<lambda>(link, code, name) row. [code, name] @ row)
                  (get_obec_links example_join main_soup (example_argv ! 1)) rows)"
proof -
  have run: "main example_net example_join example_argv () = (fst example_result, snd example_result)"
    by (simp add: example_result_def)
  have written: "files (snd example_result) \<noteq> []"
    by (simp add: example_result_def example_run)
  from written main_output [OF run written] show ?thesis by (rule conjI)
qed

theorem row_lengths_witness:
  "files (snd example_result) \<noteq> []
   \<and> (\<exists>main_soup first_obec_soup soups rows.
         pages (requests (snd example_result)) =
              [(example_argv ! 1, Inr main_soup),
               (fst (hd (get_obec_links example_join main_soup (example_argv ! 1))), Inr first_obec_soup)]
              @ zip (map fst (get_obec_links example_join main_soup (example_argv ! 1))) (map Inr soups)
         \<and> files (snd example_result) =
              [(example_argv ! 2,
                writerow (csv_header (get_party_names first_obec_soup))
                @ writerows (map2 (\<lambda>(link, code, name) row. [code, name] @ row)
                               (get_obec_links example_join main_soup (example_argv ! 1)) rows))]
         \<and> list_all2
              (\<lambda>soup row. parse_soup soup = Inr row
                 \<and> length (drop 3 row) = length (party_rows soup)
                 \<and> (length (drop 3 row) = length (get_party_names first_obec_soup))
                     = (length (party_rows soup) = length (party_rows first_obec_soup)))
              soups rows)"
proof -
  have run: "main example_net example_join example_argv () = (fst example_result, snd example_result)"
    by (simp add: example_result_def)
  have written: "files (snd example_result) \<noteq> []"
    by (simp add: example_result_def example_run)
  from written row_lengths [OF run written] show ?thesis by (rule conjI)
qed

end
